theory Spec2Isabelle
  imports Complex_Main
begin

section \<open>The Firestore clearing script (clear_firestore.py)\<close>

text \<open>
  The script talks to three outside parties: the credential machinery of the Firebase
  Admin SDK, the Firestore service, and standard output. None of them is part of the
  script, so the model takes their behaviour as an input (\<open>env\<close>) and records what the script
  does to them in a \<open>world\<close>: the trace of SDK calls, raised exceptions and printed lines,
  in program order, together with the batches the store has applied.
\<close>

subsection \<open>Data\<close>

text \<open>
  A Python generator, as the \<open>for\<close> loops of the script consume it: each step yields an
  item, ends the iteration, or raises an exception (given by its message).
\<close>

datatype 'a pystream = Exhausted | Raises string | Yield 'a "'a pystream"

fun yielded :: "'a pystream \<Rightarrow> 'a list" where
  "yielded Exhausted = []"
| "yielded (Raises e) = []"
| "yielded (Yield x rest) = x # yielded rest"

text \<open>A document snapshot; the script reads only \<open>doc.reference\<close>, an opaque handle.\<close>

datatype 'r document = Document (reference: 'r)

text \<open>A collection handle: \<open>collection.id\<close> and the generator \<open>collection.stream()\<close>.\<close>

datatype 'r collection = Collection (collection_id: string) (stream: "'r document pystream")

text \<open>
  The lines the script prints. The texts carry emoji, so each line is a constructor that
  holds the values interpolated into it.
\<close>

datatype message =
    Clearing_banner
  | Warning_banner
  | Auto_proceeding
  | Initialized
  | Failed_to_initialize string
  | Please_authenticate
  | Connected
  | Processing_collection string
  | Deleted_batch nat
  | Deleted_final_batch nat
  | Deleted_from nat string
  | Successfully_cleared
  | Total_deleted nat
  | Error_clearing string
  | Database_cleared
  | Failed_to_clear

text \<open>The SDK calls of the script.\<close>

datatype 'r call =
    ApplicationDefault
  | Initialize_app
  | Client
  | Collections
  | Stream string
  | Delete 'r
  | Commit "'r list"

datatype 'r event = Call "'r call" | Raised string | Print message

text \<open>
  What the outside does: for each fallible call whether it raises (\<open>Some\<close> message) or
  returns; the generator \<open>db.collections()\<close>; and for \<open>batch.commit()\<close> whether the store
  rejects the batch, which may depend on the batches it has applied before.
\<close>

record 'r env =
  ApplicationDefault_raises :: "string option"
  initialize_app_raises :: "string option"
  client_raises :: "string option"
  collections :: "'r collection pystream"
  commit_raises :: "'r list list \<Rightarrow> 'r list \<Rightarrow> string option"

record 'r world =
  trace :: "'r event list"
  committed :: "'r list list"

text \<open>
  The local variables of the inner loop. The counters are Python integers that start at 0
  and are only incremented or reset to 0, hence natural numbers.
\<close>

record 'r locals =
  batch :: "'r list"
  count_in_batch :: nat
  collection_count :: nat

subsection \<open>Primitive effects\<close>

definition emit :: "'r event \<Rightarrow> 'r world \<Rightarrow> 'r world" where
  "emit ev w = w\<lparr>trace := trace w @ [ev]\<rparr>"

definition print :: "message \<Rightarrow> 'r world \<Rightarrow> 'r world" where
  "print m w = emit (Print m) w"

text \<open>A call that either returns or raises, by the environment's word.\<close>

definition fallible :: "'r call \<Rightarrow> string option \<Rightarrow> 'r world \<Rightarrow> (string + unit) \<times> 'r world" where
  "fallible c r w =
     (case r of
        None \<Rightarrow> (Inr (), emit (Call c) w)
      | Some e \<Rightarrow> (Inl e, emit (Raised e) (emit (Call c) w)))"

text \<open>\<open>batch.commit()\<close>: on success the store applies the batch as one unit.\<close>

definition commit :: "'r env \<Rightarrow> 'r list \<Rightarrow> 'r world \<Rightarrow> (string + unit) \<times> 'r world" where
  "commit env b w =
     (case commit_raises env (committed w) b of
        None \<Rightarrow> (Inr (), (emit (Call (Commit b)) w)\<lparr>committed := committed w @ [b]\<rparr>)
      | Some e \<Rightarrow> (Inl e, emit (Raised e) (emit (Call (Commit b)) w)))"

subsection \<open>The script\<close>

definition batch_size :: nat where
  "batch_size = 100"

text \<open>Lines 48 to 59: the loop \<open>for doc in docs\<close>.\<close>

fun delete_docs ::
  "'r env \<Rightarrow> 'r document pystream \<Rightarrow> 'r locals \<Rightarrow> 'r world \<Rightarrow> (string + 'r locals) \<times> 'r world" where
  "delete_docs env Exhausted s w = (Inr s, w)"
| "delete_docs env (Raises e) s w = (Inl e, emit (Raised e) w)"
| "delete_docs env (Yield doc rest) s w =
     (let w1 = emit (Call (Delete (reference doc))) w;
          s1 = s\<lparr>batch := batch s @ [reference doc],
                 count_in_batch := count_in_batch s + 1,
                 collection_count := collection_count s + 1\<rparr>
      in if count_in_batch s1 \<ge> batch_size then
           (case commit env (batch s1) w1 of
              (Inl e, w2) \<Rightarrow> (Inl e, w2)
            | (Inr u, w2) \<Rightarrow>
                delete_docs env rest (s1\<lparr>batch := [], count_in_batch := 0\<rparr>)
                  (print (Deleted_batch (count_in_batch s1)) w2))
         else delete_docs env rest s1 w1)"

text \<open>Lines 61 to 64: the remaining documents of the batch.\<close>

definition commit_remaining :: "'r env \<Rightarrow> 'r locals \<Rightarrow> 'r world \<Rightarrow> (string + unit) \<times> 'r world" where
  "commit_remaining env s w =
     (if count_in_batch s > 0 then
        (case commit env (batch s) w of
           (Inl e, w1) \<Rightarrow> (Inl e, w1)
         | (Inr u, w1) \<Rightarrow> (Inr (), print (Deleted_final_batch (count_in_batch s)) w1))
      else (Inr (), w))"

text \<open>
  Lines 37 to 67: the body of the loop \<open>for collection in collections\<close>; it returns the
  new value of \<open>total_deleted\<close>.
\<close>

definition process_collection ::
  "'r env \<Rightarrow> 'r collection \<Rightarrow> nat \<Rightarrow> 'r world \<Rightarrow> (string + nat) \<times> 'r world" where
  "process_collection env collection total_deleted w =
     (let collection_name = collection_id collection;
          w1 = print (Processing_collection collection_name) w;
          w2 = emit (Call (Stream collection_name)) w1
      in case delete_docs env (stream collection)
                \<lparr>batch = [], count_in_batch = 0, collection_count = 0\<rparr> w2 of
           (Inl e, w3) \<Rightarrow> (Inl e, w3)
         | (Inr s, w3) \<Rightarrow>
             (case commit_remaining env s w3 of
                (Inl e, w4) \<Rightarrow> (Inl e, w4)
              | (Inr u, w4) \<Rightarrow>
                  (Inr (total_deleted + collection_count s),
                   print (Deleted_from (collection_count s) collection_name) w4)))"

text \<open>Lines 36 to 67: the loop over the collections.\<close>

fun delete_collections ::
  "'r env \<Rightarrow> 'r collection pystream \<Rightarrow> nat \<Rightarrow> 'r world \<Rightarrow> (string + nat) \<times> 'r world" where
  "delete_collections env Exhausted total_deleted w = (Inr total_deleted, w)"
| "delete_collections env (Raises e) total_deleted w = (Inl e, emit (Raised e) w)"
| "delete_collections env (Yield collection rest) total_deleted w =
     (case process_collection env collection total_deleted w of
        (Inl e, w1) \<Rightarrow> (Inl e, w1)
      | (Inr t, w1) \<Rightarrow> delete_collections env rest t w1)"

text \<open>Lines 16 to 21: the statements guarded by the inner \<open>try\<close>.\<close>

definition initialize :: "'r env \<Rightarrow> 'r world \<Rightarrow> (string + unit) \<times> 'r world" where
  "initialize env w =
     (case fallible ApplicationDefault (ApplicationDefault_raises env) w of
        (Inl e, w1) \<Rightarrow> (Inl e, w1)
      | (Inr u, w1) \<Rightarrow>
          (case fallible Initialize_app (initialize_app_raises env) w1 of
             (Inl e, w2) \<Rightarrow> (Inl e, w2)
           | (Inr u, w2) \<Rightarrow> (Inr (), print Initialized w2)))"

text \<open>Lines 28 to 71: the statements after the inner \<open>try\<close>, guarded by the outer one.\<close>

definition clear_all :: "'r env \<Rightarrow> 'r world \<Rightarrow> (string + unit) \<times> 'r world" where
  "clear_all env w =
     (case fallible Client (client_raises env) w of
        (Inl e, w1) \<Rightarrow> (Inl e, w1)
      | (Inr u, w1) \<Rightarrow>
          (let w2 = print Connected w1;
               w3 = emit (Call Collections) w2
           in case delete_collections env (collections env) 0 w3 of
                (Inl e, w4) \<Rightarrow> (Inl e, w4)
              | (Inr total_deleted, w4) \<Rightarrow>
                  (Inr (), print (Total_deleted total_deleted) (print Successfully_cleared w4))))"

text \<open>Lines 10 to 75: \<open>clear_firestore()\<close> with its two handlers; it returns a boolean.\<close>

definition clear_firestore :: "'r env \<Rightarrow> 'r world \<Rightarrow> bool \<times> 'r world" where
  "clear_firestore env w =
     (case initialize env w of
        (Inl e, w1) \<Rightarrow> (False, print Please_authenticate (print (Failed_to_initialize e) w1))
      | (Inr u, w1) \<Rightarrow>
          (case clear_all env w1 of
             (Inl e, w2) \<Rightarrow> (False, print (Error_clearing e) w2)
           | (Inr u, w2) \<Rightarrow> (True, w2)))"

text \<open>
  Lines 77 to 87: the script itself, started in a world where nothing has happened. It
  returns the exit status of the process: 1 from \<open>sys.exit(1)\<close>, 0 when the script runs
  to its end.
\<close>

definition start :: "'r world" where
  "start = \<lparr>trace = [], committed = []\<rparr>"

definition main :: "'r env \<Rightarrow> nat \<times> 'r world" where
  "main env =
     (let w1 = print Clearing_banner start;
          w2 = print Warning_banner w1;
          w3 = print Auto_proceeding w2
      in case clear_firestore env w3 of
           (True, w4) \<Rightarrow> (0, print Database_cleared w4)
         | (False, w4) \<Rightarrow> (1, print Failed_to_clear w4))"

subsection \<open>Reading a trace\<close>

text \<open>The batches submitted by \<open>batch.commit()\<close>, in order.\<close>

fun commit_calls :: "'r event list \<Rightarrow> 'r list list" where
  "commit_calls [] = []"
| "commit_calls (Call (Commit b) # t) = b # commit_calls t"
| "commit_calls (ev # t) = commit_calls t"

text \<open>The references passed to \<open>batch.delete\<close>, in order.\<close>

fun delete_calls :: "'r event list \<Rightarrow> 'r list" where
  "delete_calls [] = []"
| "delete_calls (Call (Delete r) # t) = r # delete_calls t"
| "delete_calls (ev # t) = delete_calls t"

text \<open>The messages of the exceptions raised, in order.\<close>

fun raised :: "'r event list \<Rightarrow> string list" where
  "raised [] = []"
| "raised (Raised e # t) = e # raised t"
| "raised (ev # t) = raised t"

text \<open>The lines printed, in order.\<close>

fun printed :: "'r event list \<Rightarrow> message list" where
  "printed [] = []"
| "printed (Print m # t) = m # printed t"
| "printed (ev # t) = printed t"

text \<open>The summaries printed per collection (line 66): name and count.\<close>

fun collection_reports :: "message list \<Rightarrow> (string \<times> nat) list" where
  "collection_reports [] = []"
| "collection_reports (Deleted_from n name # ms) = (name, n) # collection_reports ms"
| "collection_reports (m # ms) = collection_reports ms"

text \<open>The grand totals printed (line 70).\<close>

fun total_reports :: "message list \<Rightarrow> nat list" where
  "total_reports [] = []"
| "total_reports (Total_deleted n # ms) = n # total_reports ms"
| "total_reports (m # ms) = total_reports ms"

subsection \<open>Notions used in the proofs\<close>

text \<open>
  The invariant of the inner loop at the head of each iteration: the counter agrees with
  the pending batch, which is not full.
\<close>

definition batch_inv :: "'r locals \<Rightarrow> bool" where
  "batch_inv s = (count_in_batch s = length (batch s) \<and> length (batch s) < batch_size)"

text \<open>Cutting a list into pieces of \<open>n\<close> items, the last one possibly shorter.\<close>

function chunks :: "nat \<Rightarrow> 'a list \<Rightarrow> 'a list list" where
  "chunks n xs = (if n = 0 \<or> xs = [] then [] else take n xs # chunks n (drop n xs))"
  by pat_completeness auto
termination
  by (relation "measure (\<lambda>(n, xs). length xs)") auto

declare chunks.simps [simp del]

text \<open>A batch of admissible size.\<close>

definition sized :: "'r list \<Rightarrow> bool" where
  "sized b = (1 \<le> length b \<and> length b \<le> batch_size)"

text \<open>
  The commits between two worlds when an exception \<open>e\<close> ended the work: the store applied
  batches of admissible size, and the script submitted exactly these, and possibly one
  more, which the store rejected with \<open>e\<close>.
\<close>

definition failed_commits :: "'r env \<Rightarrow> string \<Rightarrow> 'r world \<Rightarrow> 'r world \<Rightarrow> bool" where
  "failed_commits env e w w' =
     (\<exists>cs. committed w' = committed w @ cs \<and> list_all sized cs \<and>
        (commit_calls (trace w') = commit_calls (trace w) @ cs \<or>
         (\<exists>b. sized b \<and> commit_calls (trace w') = commit_calls (trace w) @ cs @ [b] \<and>
              commit_raises env (committed w') b = Some e)))"

text \<open>The references of the documents that the stream of a collection yields.\<close>

definition refs :: "'r collection \<Rightarrow> 'r list" where
  "refs c = map reference (yielded (stream c))"

subsection \<open>Example environments\<close>

text \<open>A store with one collection of three documents, where no call fails.\<close>

definition demo_env :: "string env" where
  "demo_env = \<lparr>ApplicationDefault_raises = None, initialize_app_raises = None,
     client_raises = None,
     collections = Yield (Collection ''notes''
       (Yield (Document ''a'') (Yield (Document ''b'') (Yield (Document ''c'') Exhausted)))) Exhausted,
     commit_raises = (\<lambda>applied b. None)\<rparr>"


text \<open>The world in which the script calls \<open>clear_firestore\<close>: three lines printed.\<close>

definition banner :: "'r world" where
  "banner = print Auto_proceeding (print Warning_banner (print Clearing_banner start))"

text \<open>The same store, when it rejects every batch.\<close>

definition flaky_env :: "string env" where
  "flaky_env = demo_env\<lparr>commit_raises := (\<lambda>applied b. Some ''deadline exceeded'')\<rparr>"

text \<open>The SDK calls made, in order.\<close>

fun calls :: "'r event list \<Rightarrow> 'r call list" where
  "calls [] = []"
| "calls (Call c # t) = c # calls t"
| "calls (ev # t) = calls t"

text \<open>No ambient credentials: \<open>credentials.ApplicationDefault()\<close> raises.\<close>

definition broken_env :: "string env" where
  "broken_env = demo_env\<lparr>ApplicationDefault_raises := Some ''no credentials''\<rparr>"

text \<open>A store whose only collection has no documents.\<close>

definition empty_env :: "string env" where
  "empty_env = demo_env\<lparr>collections := Yield (Collection ''logs'' Exhausted) Exhausted\<rparr>"

text \<open>No collection that the enumeration yields has a document.\<close>

definition store_empty :: "'r env \<Rightarrow> bool" where
  "store_empty env = list_all (\<lambda>c. yielded (stream c) = []) (yielded (collections env))"

text \<open>How a generator ends: by exhaustion (\<open>None\<close>) or by an exception.\<close>

fun ends :: "'a pystream \<Rightarrow> string option" where
  "ends Exhausted = None"
| "ends (Raises e) = Some e"
| "ends (Yield x rest) = ends rest"

text \<open>A generator that yields the items of a list and ends.\<close>

fun of_list :: "'a list \<Rightarrow> 'a pystream" where
  "of_list [] = Exhausted"
| "of_list (x # xs) = Yield x (of_list xs)"

text \<open>An environment where nothing raises.\<close>

definition healthy :: "'r env \<Rightarrow> bool" where
  "healthy env =
     (ApplicationDefault_raises env = None \<and> initialize_app_raises env = None \<and>
      client_raises env = None \<and> ends (collections env) = None \<and>
      list_all (\<lambda>c. ends (stream c) = None) (yielded (collections env)) \<and>
      (\<forall>applied b. commit_raises env applied b = None))"

text \<open>
  The scenario of the specification: the collections "users", with 150 documents, and
  "logs", with none. A reference names the collection and the position of the document.
\<close>

definition users :: "(string \<times> nat) collection" where
  "users = Collection ''users'' (of_list (map (\<lambda>i. Document (''users'', i)) [0..<150]))"

definition logs :: "(string \<times> nat) collection" where
  "logs = Collection ''logs'' Exhausted"

definition scenario :: "(string \<times> nat) env" where
  "scenario = \<lparr>ApplicationDefault_raises = None, initialize_app_raises = None,
     client_raises = None, collections = Yield users (Yield logs Exhausted),
     commit_raises = (\<lambda>applied b. None)\<rparr>"

section \<open>Properties\<close>

subsection \<open>Traces and primitive effects\<close>

lemma commit_calls_append [simp]: "commit_calls (s @ t) = commit_calls s @ commit_calls t"
  by (induction s rule: commit_calls.induct) simp_all

lemma delete_calls_append [simp]: "delete_calls (s @ t) = delete_calls s @ delete_calls t"
  by (induction s rule: delete_calls.induct) simp_all

lemma raised_append [simp]: "raised (s @ t) = raised s @ raised t"
  by (induction s rule: raised.induct) simp_all

lemma printed_append [simp]: "printed (s @ t) = printed s @ printed t"
  by (induction s rule: printed.induct) simp_all

lemma collection_reports_append [simp]:
  "collection_reports (s @ t) = collection_reports s @ collection_reports t"
  by (induction s rule: collection_reports.induct) simp_all

lemma total_reports_append [simp]: "total_reports (s @ t) = total_reports s @ total_reports t"
  by (induction s rule: total_reports.induct) simp_all

lemma trace_emit [simp]: "trace (emit ev w) = trace w @ [ev]"
  by (simp add: emit_def)

lemma committed_emit [simp]: "committed (emit ev w) = committed w"
  by (simp add: emit_def)

lemma trace_print [simp]: "trace (print m w) = trace w @ [Print m]"
  by (simp add: print_def)

lemma committed_print [simp]: "committed (print m w) = committed w"
  by (simp add: print_def)

text \<open>The two outcomes of a commit.\<close>

lemma commit_Inr:
  "commit env b w = (Inr u, w') \<Longrightarrow>
     commit_raises env (committed w) b = None \<and>
     trace w' = trace w @ [Call (Commit b)] \<and> committed w' = committed w @ [b]"
  by (auto simp: commit_def split: option.splits)

lemma commit_Inl:
  "commit env b w = (Inl e, w') \<Longrightarrow>
     commit_raises env (committed w) b = Some e \<and>
     trace w' = trace w @ [Call (Commit b), Raised e] \<and> committed w' = committed w"
  by (auto simp: commit_def split: option.splits)

subsection \<open>The inner loop\<close>

text \<open>
  When the loop ends normally it has submitted only full batches, all applied, and they
  hold, followed by the pending batch, the references of the documents in stream order.
\<close>

lemma delete_docs_Inr:
  "batch_inv s \<Longrightarrow> delete_docs env ds s w = (Inr s', w') \<Longrightarrow>
     batch_inv s' \<and>
     collection_count s' = collection_count s + length (yielded ds) \<and>
     (\<exists>cs. commit_calls (trace w') = commit_calls (trace w) @ cs \<and>
           committed w' = committed w @ cs \<and>
           (\<forall>b \<in> set cs. length b = batch_size) \<and>
           concat cs @ batch s' = batch s @ map reference (yielded ds))"
proof (induction ds arbitrary: s w)
  case Exhausted
  then show ?case by simp
next
  case (Raises e)
  then show ?case by simp
next
  case (Yield doc rest)
  let ?r = "reference doc"
  let ?w1 = "emit (Call (Delete ?r)) w"
  show ?case
  proof (cases "batch_size \<le> count_in_batch s + 1")
    case True
    let ?s2 = "s\<lparr>collection_count := collection_count s + 1, batch := [], count_in_batch := 0\<rparr>"
    from Yield.prems(2) True obtain u w2 where
      c: "commit env (batch s @ [?r]) ?w1 = (Inr u, w2)" and
      d: "delete_docs env rest ?s2 (print (Deleted_batch (count_in_batch s + 1)) w2) = (Inr s', w')"
      by (auto simp: Let_def split: prod.splits sum.splits)
    have len: "length (batch s @ [?r]) = batch_size"
      using Yield.prems(1) True by (simp add: batch_inv_def)
    have i2: "batch_inv ?s2"
      by (simp add: batch_inv_def batch_size_def)
    from Yield.IH [OF i2 d] obtain cs where
      ih: "batch_inv s'" "collection_count s' = collection_count ?s2 + length (yielded rest)"
        "commit_calls (trace w') = commit_calls (trace (print (Deleted_batch (count_in_batch s + 1)) w2)) @ cs"
        "committed w' = committed (print (Deleted_batch (count_in_batch s + 1)) w2) @ cs"
        "\<forall>b \<in> set cs. length b = batch_size"
        "concat cs @ batch s' = batch ?s2 @ map reference (yielded rest)"
      by blast
    from commit_Inr [OF c] have
      w2: "trace w2 = trace ?w1 @ [Call (Commit (batch s @ [?r]))]"
        "committed w2 = committed ?w1 @ [batch s @ [?r]]"
      by simp_all
    let ?cs = "(batch s @ [?r]) # cs"
    have "commit_calls (trace w') = commit_calls (trace w) @ ?cs"
      using ih(3) w2(1) by simp
    moreover have "committed w' = committed w @ ?cs"
      using ih(4) w2(2) by simp
    moreover have "\<forall>b \<in> set ?cs. length b = batch_size"
      using ih(5) len by simp
    moreover have "concat ?cs @ batch s' = batch s @ map reference (yielded (Yield doc rest))"
      using ih(6) by simp
    ultimately show ?thesis
      using ih(1,2) by (intro conjI exI [of _ ?cs]) simp_all
  next
    case False
    let ?s1 = "s\<lparr>batch := batch s @ [?r], count_in_batch := count_in_batch s + 1,
                 collection_count := collection_count s + 1\<rparr>"
    from Yield.prems(2) False have
      d: "delete_docs env rest ?s1 ?w1 = (Inr s', w')"
      by (simp add: Let_def)
    have i1: "batch_inv ?s1"
      using Yield.prems(1) False by (simp add: batch_inv_def)
    from Yield.IH [OF i1 d] obtain cs where
      ih: "batch_inv s'" "collection_count s' = collection_count ?s1 + length (yielded rest)"
        "commit_calls (trace w') = commit_calls (trace ?w1) @ cs"
        "committed w' = committed ?w1 @ cs"
        "\<forall>b \<in> set cs. length b = batch_size"
        "concat cs @ batch s' = batch ?s1 @ map reference (yielded rest)"
      by blast
    have "commit_calls (trace w') = commit_calls (trace w) @ cs"
      using ih(3) by simp
    moreover have "committed w' = committed w @ cs"
      using ih(4) by simp
    moreover have "concat cs @ batch s' = batch s @ map reference (yielded (Yield doc rest))"
      using ih(6) by simp
    ultimately show ?thesis
      using ih(1,2,5) by (intro conjI exI [of _ cs]) simp_all
  qed
qed

subsection \<open>Cutting a list into batches\<close>

lemma chunks_Nil [simp]: "chunks n [] = []"
  by (simp add: chunks.simps)

lemma chunks_short:
  assumes "0 < length xs" and "length xs \<le> n"
  shows "chunks n xs = [xs]"
proof -
  from assms have "0 < n" by (rule less_le_trans)
  moreover from assms(1) have "xs \<noteq> []" by simp
  ultimately have "n \<noteq> 0" and "xs \<noteq> []" by simp_all
  with assms(2) show ?thesis by (subst chunks.simps) simp
qed

lemma chunks_step: "0 < n \<Longrightarrow> length b = n \<Longrightarrow> chunks n (b @ xs) = b # chunks n xs"
  by (subst chunks.simps) auto

lemma chunks_full:
  "0 < n \<Longrightarrow> \<forall>b \<in> set cs. length b = n \<Longrightarrow> length r < n \<Longrightarrow>
     chunks n (concat cs @ r) = cs @ (if r = [] then [] else [r])"
proof (induction cs)
  case Nil
  then show ?case by (simp add: chunks_short)
next
  case (Cons b cs)
  then show ?case by (simp add: chunks_step)
qed

lemma concat_chunks: "0 < n \<Longrightarrow> concat (chunks n xs) = xs"
proof (induction n xs rule: chunks.induct)
  case (1 n xs)
  then show ?case by (subst chunks.simps) simp
qed

lemma chunks_sized: "b \<in> set (chunks n xs) \<Longrightarrow> 1 \<le> length b \<and> length b \<le> n"
proof (induction n xs rule: chunks.induct)
  case (1 n xs)
  from "1.prems" have ne: "n \<noteq> 0" "xs \<noteq> []"
    by (auto simp: chunks.simps split: if_splits)
  with "1.prems" have "b = take n xs \<or> b \<in> set (chunks n (drop n xs))"
    by (subst (asm) chunks.simps) simp
  then show ?case
  proof
    assume "b = take n xs"
    with ne show ?thesis by (cases xs) auto
  next
    assume "b \<in> set (chunks n (drop n xs))"
    with "1.IH" ne show ?thesis by simp
  qed
qed


lemma sum_length_chunks: "0 < n \<Longrightarrow> sum_list (map length (chunks n xs)) = length xs"
  using concat_chunks [of n xs] length_concat [of "chunks n xs"] by simp

subsection \<open>Commits of a failed run\<close>

lemma failed_commits_step:
  assumes "commit_calls (trace w1) = commit_calls (trace w) @ cs0"
    and "committed w1 = committed w @ cs0"
    and "list_all sized cs0"
    and "failed_commits env e w1 w2"
  shows "failed_commits env e w w2"
proof -
  from assms(4) obtain cs where
    c: "committed w2 = committed w1 @ cs" "list_all sized cs" and
    d: "commit_calls (trace w2) = commit_calls (trace w1) @ cs \<or>
         (\<exists>b. sized b \<and> commit_calls (trace w2) = commit_calls (trace w1) @ cs @ [b] \<and>
              commit_raises env (committed w2) b = Some e)"
    unfolding failed_commits_def by blast
  have "committed w2 = committed w @ (cs0 @ cs)"
    using c(1) assms(2) by simp
  moreover have "list_all sized (cs0 @ cs)"
    using c(2) assms(3) by simp
  moreover have "commit_calls (trace w2) = commit_calls (trace w) @ (cs0 @ cs) \<or>
         (\<exists>b. sized b \<and> commit_calls (trace w2) = commit_calls (trace w) @ (cs0 @ cs) @ [b] \<and>
              commit_raises env (committed w2) b = Some e)"
    using d assms(1) by auto
  ultimately show ?thesis
    unfolding failed_commits_def by blast
qed

lemma failed_commits_none:
  "committed w' = committed w \<Longrightarrow> commit_calls (trace w') = commit_calls (trace w) \<Longrightarrow>
     failed_commits env e w w'"
  unfolding failed_commits_def by (intro exI [of _ "[]"]) simp

lemma failed_commits_commit:
  assumes "commit env b w = (Inl e, w')" and "sized b"
  shows "failed_commits env e w w'"
proof -
  from commit_Inl [OF assms(1)] have
    "commit_raises env (committed w) b = Some e"
    "trace w' = trace w @ [Call (Commit b), Raised e]" "committed w' = committed w"
    by simp_all
  then have "committed w' = committed w @ []" "list_all sized []"
    "sized b \<and> commit_calls (trace w') = commit_calls (trace w) @ [] @ [b] \<and>
       commit_raises env (committed w') b = Some e"
    using assms(2) by simp_all
  then show ?thesis
    unfolding failed_commits_def by blast
qed

text \<open>What the inner loop leaves in the trace besides commits.\<close>

lemma commit_quiet:
  "commit env b w = (r, w') \<Longrightarrow>
     printed (trace w') = printed (trace w) \<and> delete_calls (trace w') = delete_calls (trace w)"
  by (auto simp: commit_def split: option.splits)

lemma delete_docs_reports:
  "delete_docs env ds s w = (r, w') \<Longrightarrow>
     collection_reports (printed (trace w')) = collection_reports (printed (trace w)) \<and>
     total_reports (printed (trace w')) = total_reports (printed (trace w))"
proof (induction ds arbitrary: s w)
  case (Yield doc rest)
  then show ?case
    by (fastforce simp: Let_def dest: commit_quiet split: prod.splits sum.splits if_splits)
qed auto

lemma delete_docs_Inr_trace:
  "delete_docs env ds s w = (Inr s', w') \<Longrightarrow>
     raised (trace w') = raised (trace w) \<and>
     delete_calls (trace w') = delete_calls (trace w) @ map reference (yielded ds)"
proof (induction ds arbitrary: s w)
  case (Yield doc rest)
  then show ?case
    by (fastforce simp: Let_def dest: commit_Inr split: prod.splits sum.splits if_splits)
qed auto

lemma delete_docs_Inl_raised:
  "delete_docs env ds s w = (Inl e, w') \<Longrightarrow>
     raised (trace w') = raised (trace w) @ [e] \<and> (\<exists>t. trace w' = t @ [Raised e])"
proof (induction ds arbitrary: s w)
  case (Yield doc rest)
  then show ?case
    by (fastforce simp: Let_def dest: commit_Inr commit_Inl split: prod.splits sum.splits if_splits)
qed auto

lemma delete_docs_Inl_commits:
  "batch_inv s \<Longrightarrow> delete_docs env ds s w = (Inl e, w') \<Longrightarrow> failed_commits env e w w'"
proof (induction ds arbitrary: s w)
  case Exhausted
  then show ?case by simp
next
  case (Raises e')
  then show ?case by (auto intro: failed_commits_none)
next
  case (Yield doc rest)
  let ?r = "reference doc"
  let ?w1 = "emit (Call (Delete ?r)) w"
  show ?case
  proof (cases "batch_size \<le> count_in_batch s + 1")
    case True
    have len: "length (batch s @ [?r]) = batch_size"
      using Yield.prems(1) True by (simp add: batch_inv_def)
    then have sz: "sized (batch s @ [?r])"
      by (simp add: sized_def batch_size_def)
    obtain r w2 where c: "commit env (batch s @ [?r]) ?w1 = (r, w2)"
      by (cases "commit env (batch s @ [?r]) ?w1") blast
    show ?thesis
    proof (cases r)
      case (Inl e')
      with c Yield.prems(2) True have "e' = e" "w2 = w'"
        by (simp_all add: Let_def)
      with c Inl have "failed_commits env e ?w1 w'"
        using failed_commits_commit sz by blast
      then show ?thesis
        by (rule failed_commits_step [rotated 3, where ?cs0.0 = "[]"]) simp_all
    next
      case (Inr u)
      let ?s2 = "s\<lparr>collection_count := collection_count s + 1, batch := [], count_in_batch := 0\<rparr>"
      let ?w3 = "print (Deleted_batch (count_in_batch s + 1)) w2"
      from c Inr Yield.prems(2) True have
        d: "delete_docs env rest ?s2 ?w3 = (Inl e, w')"
        by (simp add: Let_def)
      have i2: "batch_inv ?s2"
        by (simp add: batch_inv_def batch_size_def)
      from commit_Inr [OF c [unfolded Inr]] have
        w2: "trace w2 = trace ?w1 @ [Call (Commit (batch s @ [?r]))]"
          "committed w2 = committed ?w1 @ [batch s @ [?r]]"
        by simp_all
      from Yield.IH [OF i2 d] show ?thesis
        by (rule failed_commits_step [rotated 3, where ?cs0.0 = "[batch s @ [?r]]"])
          (simp_all add: w2 sz)
    qed
  next
    case False
    let ?s1 = "s\<lparr>batch := batch s @ [?r], count_in_batch := count_in_batch s + 1,
                 collection_count := collection_count s + 1\<rparr>"
    from Yield.prems(2) False have
      d: "delete_docs env rest ?s1 ?w1 = (Inl e, w')"
      by (simp add: Let_def)
    have i1: "batch_inv ?s1"
      using Yield.prems(1) False by (simp add: batch_inv_def)
    from Yield.IH [OF i1 d] show ?thesis
      by (rule failed_commits_step [rotated 3, where ?cs0.0 = "[]"]) simp_all
  qed
qed

text \<open>The final partial batch.\<close>

lemma commit_remaining_Inr:
  assumes "batch_inv s" and "commit_remaining env s w = (Inr u, w')"
  shows "commit_calls (trace w') = commit_calls (trace w) @ (if batch s = [] then [] else [batch s])"
    and "committed w' = committed w @ (if batch s = [] then [] else [batch s])"
    and "raised (trace w') = raised (trace w)"
    and "delete_calls (trace w') = delete_calls (trace w)"
    and "collection_reports (printed (trace w')) = collection_reports (printed (trace w))"
    and "total_reports (printed (trace w')) = total_reports (printed (trace w))"
  using assms
  by (auto simp: commit_remaining_def batch_inv_def dest!: commit_Inr
      split: if_splits prod.splits sum.splits)

lemma commit_remaining_Inl:
  assumes "batch_inv s" and "commit_remaining env s w = (Inl e, w')"
  shows "failed_commits env e w w'"
    and "raised (trace w') = raised (trace w) @ [e]"
    and "\<exists>t. trace w' = t @ [Raised e]"
    and "total_reports (printed (trace w')) = total_reports (printed (trace w))"
proof -
  from assms have pos: "0 < count_in_batch s" and
    c: "commit env (batch s) w = (Inl e, w')"
    by (auto simp: commit_remaining_def split: if_splits prod.splits sum.splits)
  from pos assms(1) have "sized (batch s)"
    by (cases "batch s") (simp_all add: sized_def batch_inv_def)
  with c show "failed_commits env e w w'"
    by (rule failed_commits_commit)
  from commit_Inl [OF c] show "raised (trace w') = raised (trace w) @ [e]"
    and "\<exists>t. trace w' = t @ [Raised e]"
    and "total_reports (printed (trace w')) = total_reports (printed (trace w))"
    by auto
qed

subsection \<open>One collection\<close>

lemma batch_inv_init: "batch_inv \<lparr>batch = [], count_in_batch = 0, collection_count = 0\<rparr>"
  by (simp add: batch_inv_def batch_size_def)

lemma process_collection_cases:
  assumes "process_collection env c T w = (r, w')"
  defines "w2 \<equiv> emit (Call (Stream (collection_id c))) (print (Processing_collection (collection_id c)) w)"
  defines "s0 \<equiv> \<lparr>batch = [], count_in_batch = 0, collection_count = 0\<rparr>"
  obtains (stream_raises) e where "delete_docs env (stream c) s0 w2 = (Inl e, w')" "r = Inl e"
  | (commit_raises) s w3 e where "delete_docs env (stream c) s0 w2 = (Inr s, w3)"
      "commit_remaining env s w3 = (Inl e, w')" "r = Inl e"
  | (returns) s w3 u w4 where "delete_docs env (stream c) s0 w2 = (Inr s, w3)"
      "commit_remaining env s w3 = (Inr u, w4)"
      "w' = print (Deleted_from (collection_count s) (collection_id c)) w4"
      "r = Inr (T + collection_count s)"
  using assms(1) unfolding process_collection_def w2_def s0_def Let_def
  by (auto split: prod.splits sum.splits)

lemma process_collection_Inr:
  assumes "process_collection env c T w = (Inr T', w')"
  shows "T' = T + length (yielded (stream c))"
    and "commit_calls (trace w') = commit_calls (trace w) @ chunks batch_size (refs c)"
    and "committed w' = committed w @ chunks batch_size (refs c)"
    and "delete_calls (trace w') = delete_calls (trace w) @ refs c"
    and "collection_reports (printed (trace w')) =
           collection_reports (printed (trace w)) @ [(collection_id c, length (yielded (stream c)))]"
    and "total_reports (printed (trace w')) = total_reports (printed (trace w))"
    and "raised (trace w') = raised (trace w)"
proof -
  let ?w2 = "emit (Call (Stream (collection_id c))) (print (Processing_collection (collection_id c)) w)"
  let ?s0 = "\<lparr>batch = [], count_in_batch = 0, collection_count = 0\<rparr> :: 'a locals"
  from assms obtain s w3 u w4 where
    d: "delete_docs env (stream c) ?s0 ?w2 = (Inr s, w3)" and
    f: "commit_remaining env s w3 = (Inr u, w4)" and
    w': "w' = print (Deleted_from (collection_count s) (collection_id c)) w4" and
    T': "T' = T + collection_count s"
    by (cases rule: process_collection_cases) simp_all
  from delete_docs_Inr [OF batch_inv_init d] obtain cs where
    s: "batch_inv s" "collection_count s = length (yielded (stream c))" and
    cs: "commit_calls (trace w3) = commit_calls (trace ?w2) @ cs"
      "committed w3 = committed ?w2 @ cs"
      "\<forall>b \<in> set cs. length b = batch_size"
      "concat cs @ batch s = refs c"
    by (auto simp: refs_def)
  have "chunks batch_size (concat cs @ batch s) = cs @ (if batch s = [] then [] else [batch s])"
    using cs(3) s(1) by (intro chunks_full) (simp_all add: batch_inv_def batch_size_def)
  then have ch: "chunks batch_size (refs c) = cs @ (if batch s = [] then [] else [batch s])"
    by (simp only: cs(4))
  note t = delete_docs_Inr_trace [OF d] delete_docs_reports [OF d]
  note r = commit_remaining_Inr [OF s(1) f]
  show "T' = T + length (yielded (stream c))"
    using T' s(2) by simp
  show "commit_calls (trace w') = commit_calls (trace w) @ chunks batch_size (refs c)"
    unfolding ch w' using r(1) cs(1) by simp
  show "committed w' = committed w @ chunks batch_size (refs c)"
    unfolding ch w' using r(2) cs(2) by simp
  show "delete_calls (trace w') = delete_calls (trace w) @ refs c"
    unfolding w' using r(4) t by (simp add: refs_def)
  show "collection_reports (printed (trace w')) =
           collection_reports (printed (trace w)) @ [(collection_id c, length (yielded (stream c)))]"
    unfolding w' using r(5) t s(2) by simp
  show "total_reports (printed (trace w')) = total_reports (printed (trace w))"
    unfolding w' using r(6) t by simp
  show "raised (trace w') = raised (trace w)"
    unfolding w' using r(3) t by simp
qed

lemma process_collection_Inl:
  assumes "process_collection env c T w = (Inl e, w')"
  shows "failed_commits env e w w'"
    and "raised (trace w') = raised (trace w) @ [e]"
    and "\<exists>t. trace w' = t @ [Raised e]"
    and "total_reports (printed (trace w')) = total_reports (printed (trace w))"
proof -
  let ?w2 = "emit (Call (Stream (collection_id c))) (print (Processing_collection (collection_id c)) w)"
  let ?s0 = "\<lparr>batch = [], count_in_batch = 0, collection_count = 0\<rparr> :: 'a locals"
  have "failed_commits env e w w' \<and> raised (trace w') = raised (trace w) @ [e] \<and>
    (\<exists>t. trace w' = t @ [Raised e]) \<and>
    total_reports (printed (trace w')) = total_reports (printed (trace w))"
    using assms
  proof (cases rule: process_collection_cases)
    case (stream_raises e')
    then have d: "delete_docs env (stream c) ?s0 ?w2 = (Inl e, w')"
      by simp
    have "failed_commits env e w w'"
      using delete_docs_Inl_commits [OF batch_inv_init d]
      by (rule failed_commits_step [rotated 3, where ?cs0.0 = "[]"]) simp_all
    then show ?thesis
      using delete_docs_Inl_raised [OF d] delete_docs_reports [OF d] by simp
  next
    case (commit_raises s w3 e')
    then have d: "delete_docs env (stream c) ?s0 ?w2 = (Inr s, w3)"
      and f: "commit_remaining env s w3 = (Inl e, w')"
      by simp_all
    from delete_docs_Inr [OF batch_inv_init d] obtain cs where
      s: "batch_inv s" and
      cs: "commit_calls (trace w3) = commit_calls (trace ?w2) @ cs"
        "committed w3 = committed ?w2 @ cs"
        "\<forall>b \<in> set cs. length b = batch_size"
      by auto
    have la: "list_all sized cs"
      using cs(3) by (simp add: list_all_iff sized_def batch_size_def)
    have "failed_commits env e w w'"
      by (rule failed_commits_step [OF _ _ la commit_remaining_Inl(1) [OF s f]])
        (simp_all add: cs)
    then show ?thesis
      using commit_remaining_Inl(2-4) [OF s f] delete_docs_Inr_trace [OF d]
        delete_docs_reports [OF d] by simp
  next
    case (returns s w3 u w4)
    then show ?thesis by simp
  qed
  then show "failed_commits env e w w'"
    and "raised (trace w') = raised (trace w) @ [e]"
    and "\<exists>t. trace w' = t @ [Raised e]"
    and "total_reports (printed (trace w')) = total_reports (printed (trace w))"
    by simp_all
qed




subsection \<open>All collections\<close>

lemma delete_collections_Inr:
  "delete_collections env cols T w = (Inr T', w') \<Longrightarrow>
     T' = T + sum_list (map (\<lambda>c. length (yielded (stream c))) (yielded cols)) \<and>
     commit_calls (trace w') =
       commit_calls (trace w) @ concat (map (\<lambda>c. chunks batch_size (refs c)) (yielded cols)) \<and>
     committed w' =
       committed w @ concat (map (\<lambda>c. chunks batch_size (refs c)) (yielded cols)) \<and>
     delete_calls (trace w') = delete_calls (trace w) @ concat (map refs (yielded cols)) \<and>
     collection_reports (printed (trace w')) =
       collection_reports (printed (trace w)) @
         map (\<lambda>c. (collection_id c, length (yielded (stream c)))) (yielded cols) \<and>
     total_reports (printed (trace w')) = total_reports (printed (trace w)) \<and>
     raised (trace w') = raised (trace w)"
proof (induction cols arbitrary: T w)
  case Exhausted
  then show ?case by simp
next
  case (Raises e)
  then show ?case by simp
next
  case (Yield c rest)
  from Yield.prems obtain T1 w1 where
    p: "process_collection env c T w = (Inr T1, w1)" and
    d: "delete_collections env rest T1 w1 = (Inr T', w')"
    by (auto split: prod.splits sum.splits)
  note ih = Yield.IH [OF d]
  note pc = process_collection_Inr [OF p]
  show ?case
    using ih by (simp add: pc)
qed

lemma delete_collections_Inl:
  "delete_collections env cols T w = (Inl e, w') \<Longrightarrow>
     failed_commits env e w w' \<and>
     raised (trace w') = raised (trace w) @ [e] \<and>
     (\<exists>t. trace w' = t @ [Raised e]) \<and>
     total_reports (printed (trace w')) = total_reports (printed (trace w))"
proof (induction cols arbitrary: T w)
  case Exhausted
  then show ?case by simp
next
  case (Raises e')
  then show ?case by (auto intro: failed_commits_none)
next
  case (Yield c rest)
  obtain r w1 where p: "process_collection env c T w = (r, w1)"
    by (cases "process_collection env c T w") blast
  show ?case
  proof (cases r)
    case (Inl e')
    with p Yield.prems have q: "process_collection env c T w = (Inl e, w')"
      by simp
    show ?thesis
      by (intro conjI process_collection_Inl [OF q])
  next
    case (Inr T1)
    with p Yield.prems have d: "delete_collections env rest T1 w1 = (Inl e, w')"
      by simp
    note ih = Yield.IH [OF d]
    note pc = process_collection_Inr [OF p [unfolded Inr]]
    have la: "list_all sized (chunks batch_size (refs c))"
      using chunks_sized [of _ batch_size "refs c"] by (simp add: list_all_iff sized_def)
    have "failed_commits env e w w'"
      by (rule failed_commits_step [OF pc(2) pc(3) la]) (simp add: ih)
    then show ?thesis
      using ih by (simp add: pc)
  qed
qed

text \<open>A store whose collections hold no documents.\<close>

lemma process_collection_empty:
  assumes "yielded (stream c) = []" and "process_collection env c T w = (r, w')"
  shows "commit_calls (trace w') = commit_calls (trace w) \<and> committed w' = committed w \<and>
         delete_calls (trace w') = delete_calls (trace w)"
proof (cases "stream c")
  case Exhausted
  with assms(2) show ?thesis
    by (auto simp: process_collection_def commit_remaining_def Let_def)
next
  case (Raises e)
  with assms(2) show ?thesis
    by (auto simp: process_collection_def Let_def)
next
  case (Yield doc rest)
  with assms(1) show ?thesis by simp
qed

lemma delete_collections_empty:
  "list_all (\<lambda>c. yielded (stream c) = []) (yielded cols) \<Longrightarrow>
     delete_collections env cols T w = (r, w') \<Longrightarrow>
     commit_calls (trace w') = commit_calls (trace w) \<and> committed w' = committed w \<and>
     delete_calls (trace w') = delete_calls (trace w)"
proof (induction cols arbitrary: T w)
  case Exhausted
  then show ?case by simp
next
  case (Raises e)
  then show ?case by auto
next
  case (Yield c rest)
  obtain r1 w1 where p: "process_collection env c T w = (r1, w1)"
    by (cases "process_collection env c T w") blast
  from Yield.prems(1) have e: "yielded (stream c) = []"
    and es: "list_all (\<lambda>c. yielded (stream c) = []) (yielded rest)"
    by simp_all
  note pe = process_collection_empty [OF e p]
  show ?case
  proof (cases r1)
    case (Inl e')
    with p Yield.prems(2) have "w' = w1" by simp
    with pe show ?thesis by simp
  next
    case (Inr T1)
    with p Yield.prems(2) have "delete_collections env rest T1 w1 = (r, w')"
      by simp
    from Yield.IH [OF es this] pe show ?thesis by simp
  qed
qed

subsection \<open>The whole run\<close>

text \<open>The five ways through \<open>clear_firestore\<close>.\<close>

lemma clear_firestore_cases:
  assumes "clear_firestore env w = (ok, w')"
  obtains
    (credentials) e where
      "ApplicationDefault_raises env = Some e" "\<not> ok" "committed w' = committed w"
      "trace w' = trace w @ [Call ApplicationDefault, Raised e,
         Print (Failed_to_initialize e), Print Please_authenticate]"
  | (app) e where
      "ApplicationDefault_raises env = None" "initialize_app_raises env = Some e"
      "\<not> ok" "committed w' = committed w"
      "trace w' = trace w @ [Call ApplicationDefault, Call Initialize_app, Raised e,
         Print (Failed_to_initialize e), Print Please_authenticate]"
  | (client) e where
      "ApplicationDefault_raises env = None" "initialize_app_raises env = None"
      "client_raises env = Some e" "\<not> ok" "committed w' = committed w"
      "trace w' = trace w @ [Call ApplicationDefault, Call Initialize_app, Print Initialized,
         Call Client, Raised e, Print (Error_clearing e)]"
  | (data) e w3 w4 where
      "ApplicationDefault_raises env = None" "initialize_app_raises env = None"
      "client_raises env = None" "\<not> ok" "committed w3 = committed w"
      "trace w3 = trace w @ [Call ApplicationDefault, Call Initialize_app, Print Initialized,
         Call Client, Print Connected, Call Collections]"
      "delete_collections env (collections env) 0 w3 = (Inl e, w4)"
      "w' = print (Error_clearing e) w4"
  | (success) T w3 w4 where
      "ApplicationDefault_raises env = None" "initialize_app_raises env = None"
      "client_raises env = None" "ok" "committed w3 = committed w"
      "trace w3 = trace w @ [Call ApplicationDefault, Call Initialize_app, Print Initialized,
         Call Client, Print Connected, Call Collections]"
      "delete_collections env (collections env) 0 w3 = (Inr T, w4)"
      "w' = print (Total_deleted T) (print Successfully_cleared w4)"
proof (cases "ApplicationDefault_raises env")
  case (Some e)
  with assms credentials [of e] show ?thesis
    by (auto simp: clear_firestore_def initialize_def fallible_def)
next
  case ad: None
  show ?thesis
  proof (cases "initialize_app_raises env")
    case (Some e)
    with assms ad app [of e] show ?thesis
      by (auto simp: clear_firestore_def initialize_def fallible_def)
  next
    case ia: None
    show ?thesis
    proof (cases "client_raises env")
      case (Some e)
      with assms ad ia client [of e] show ?thesis
        by (auto simp: clear_firestore_def initialize_def clear_all_def fallible_def)
    next
      case cl: None
      let ?w3 = "emit (Call Collections) (print Connected (emit (Call Client)
        (print Initialized (emit (Call Initialize_app) (emit (Call ApplicationDefault) w)))))"
      have t3: "trace ?w3 = trace w @ [Call ApplicationDefault, Call Initialize_app,
         Print Initialized, Call Client, Print Connected, Call Collections]"
        and c3: "committed ?w3 = committed w"
        by simp_all
      obtain r w4 where d: "delete_collections env (collections env) 0 ?w3 = (r, w4)"
        by (cases "delete_collections env (collections env) 0 ?w3") blast
      show ?thesis
      proof (cases r)
        case (Inl e)
        with assms ad ia cl d have "\<not> ok" "w' = print (Error_clearing e) w4"
          by (auto simp: clear_firestore_def initialize_def clear_all_def fallible_def Let_def)
        with data [OF ad ia cl _ c3 t3 d [unfolded Inl]] show ?thesis
          by blast
      next
        case (Inr T)
        with assms ad ia cl d have "ok"
          "w' = print (Total_deleted T) (print Successfully_cleared w4)"
          by (auto simp: clear_firestore_def initialize_def clear_all_def fallible_def Let_def)
        with success [OF ad ia cl _ c3 t3 d [unfolded Inr]] show ?thesis
          by blast
      qed
    qed
  qed
qed

lemma main_cases:
  obtains
    (succeeds) w4 where "clear_firestore env banner = (True, w4)"
      "main env = (0, print Database_cleared w4)"
  | (fails) w4 where "clear_firestore env banner = (False, w4)"
      "main env = (1, print Failed_to_clear w4)"
proof (cases "clear_firestore env banner")
  case (Pair ok w4)
  then show ?thesis
    using succeeds [of w4] fails [of w4]
    by (cases ok) (simp_all add: main_def banner_def Let_def)
qed

lemma banner_clean [simp]:
  "commit_calls (trace banner) = []" "committed banner = []" "delete_calls (trace banner) = []"
  "raised (trace banner) = []" "collection_reports (printed (trace banner)) = []"
  "total_reports (printed (trace banner)) = []"
  by (simp_all add: banner_def start_def)

lemma run_success:
  assumes "clear_firestore env w = (True, w')"
  shows "commit_calls (trace w') =
           commit_calls (trace w) @
             concat (map (\<lambda>c. chunks batch_size (refs c)) (yielded (collections env)))"
    and "committed w' =
           committed w @ concat (map (\<lambda>c. chunks batch_size (refs c)) (yielded (collections env)))"
    and "delete_calls (trace w') =
           delete_calls (trace w) @ concat (map refs (yielded (collections env)))"
    and "collection_reports (printed (trace w')) =
           collection_reports (printed (trace w)) @
             map (\<lambda>c. (collection_id c, length (yielded (stream c)))) (yielded (collections env))"
    and "total_reports (printed (trace w')) =
           total_reports (printed (trace w)) @
             [sum_list (map (\<lambda>c. length (yielded (stream c))) (yielded (collections env)))]"
    and "raised (trace w') = raised (trace w)"
    and "\<exists>t. trace w' = t @ [Print Successfully_cleared,
           Print (Total_deleted
             (sum_list (map (\<lambda>c. length (yielded (stream c))) (yielded (collections env)))))]"
proof -
  from assms obtain T w3 w4 where
    w: "committed w3 = committed w"
      "trace w3 = trace w @ [Call ApplicationDefault, Call Initialize_app, Print Initialized,
         Call Client, Print Connected, Call Collections]"
      "w' = print (Total_deleted T) (print Successfully_cleared w4)" and
    dc: "delete_collections env (collections env) 0 w3 = (Inr T, w4)"
    by (cases rule: clear_firestore_cases) simp_all
  note d = delete_collections_Inr [OF dc]
  show "commit_calls (trace w') =
           commit_calls (trace w) @
             concat (map (\<lambda>c. chunks batch_size (refs c)) (yielded (collections env)))"
    using d by (simp add: w)
  show "committed w' =
           committed w @ concat (map (\<lambda>c. chunks batch_size (refs c)) (yielded (collections env)))"
    using d by (simp add: w)
  show "delete_calls (trace w') =
           delete_calls (trace w) @ concat (map refs (yielded (collections env)))"
    using d by (simp add: w)
  show "collection_reports (printed (trace w')) =
           collection_reports (printed (trace w)) @
             map (\<lambda>c. (collection_id c, length (yielded (stream c)))) (yielded (collections env))"
    using d by (simp add: w)
  show "total_reports (printed (trace w')) =
           total_reports (printed (trace w)) @
             [sum_list (map (\<lambda>c. length (yielded (stream c))) (yielded (collections env)))]"
    using d by (simp add: w)
  show "raised (trace w') = raised (trace w)"
    using d by (simp add: w)
  show "\<exists>t. trace w' = t @ [Print Successfully_cleared,
           Print (Total_deleted
             (sum_list (map (\<lambda>c. length (yielded (stream c))) (yielded (collections env)))))]"
    using d by (simp add: w)
qed

lemma run_failure:
  assumes "clear_firestore env w = (False, w')"
  shows "\<exists>e. failed_commits env e w w' \<and>
           raised (trace w') = raised (trace w) @ [e] \<and>
           total_reports (printed (trace w')) = total_reports (printed (trace w)) \<and>
           (\<exists>t. trace w' = t @
              (if ApplicationDefault_raises env = None \<and> initialize_app_raises env = None
               then [Raised e, Print (Error_clearing e)]
               else [Raised e, Print (Failed_to_initialize e), Print Please_authenticate]))"
  using assms
proof (cases rule: clear_firestore_cases)
  case (credentials e)
  have "failed_commits env e w w'"
    by (rule failed_commits_none) (simp_all add: credentials(3,4))
  then show ?thesis
    by (intro exI [of _ e]) (simp add: credentials(1,4))
next
  case (app e)
  have "failed_commits env e w w'"
    by (rule failed_commits_none) (simp_all add: app(4,5))
  then show ?thesis
    by (intro exI [of _ e]) (simp add: app(2,5))
next
  case (client e)
  have "failed_commits env e w w'"
    by (rule failed_commits_none) (simp_all add: client(5,6))
  then show ?thesis
    by (intro exI [of _ e]) (simp add: client(1,2,6))
next
  case (data e w3 w4)
  note d = delete_collections_Inl [OF data(7)]
  from d obtain t where t: "trace w4 = t @ [Raised e]"
    by blast
  have "failed_commits env e w3 w4"
    using d by simp
  then have "failed_commits env e w w4"
    by (rule failed_commits_step [rotated 3, where ?cs0.0 = "[]"]) (simp_all add: data(5,6))
  then have "failed_commits env e w w'"
    by (simp add: failed_commits_def data(8))
  moreover have "trace w' = t @ [Raised e, Print (Error_clearing e)]"
    by (simp add: data(8) t)
  ultimately show ?thesis
    using d by (intro exI [of _ e]) (simp add: data(1,2,5,6,8))
next
  case (success T w3 w4)
  then show ?thesis by simp
qed

subsection \<open>The example runs\<close>

lemma main_demo:
  "main demo_env =
     (0, \<lparr>trace = [Print Clearing_banner, Print Warning_banner, Print Auto_proceeding,
        Call ApplicationDefault, Call Initialize_app, Print Initialized,
        Call Client, Print Connected, Call Collections,
        Print (Processing_collection ''notes''), Call (Stream ''notes''),
        Call (Delete ''a''), Call (Delete ''b''), Call (Delete ''c''),
        Call (Commit [''a'', ''b'', ''c'']), Print (Deleted_final_batch 3),
        Print (Deleted_from 3 ''notes''),
        Print Successfully_cleared, Print (Total_deleted 3), Print Database_cleared],
        committed = [[''a'', ''b'', ''c'']]\<rparr>)"
  by (simp add: main_def clear_firestore_def initialize_def clear_all_def fallible_def
      process_collection_def demo_env_def start_def commit_remaining_def
      commit_def batch_size_def print_def emit_def Let_def numeral_3_eq_3)

lemma main_flaky:
  "main flaky_env =
     (1, \<lparr>trace = [Print Clearing_banner, Print Warning_banner, Print Auto_proceeding,
        Call ApplicationDefault, Call Initialize_app, Print Initialized,
        Call Client, Print Connected, Call Collections,
        Print (Processing_collection ''notes''), Call (Stream ''notes''),
        Call (Delete ''a''), Call (Delete ''b''), Call (Delete ''c''),
        Call (Commit [''a'', ''b'', ''c'']), Raised ''deadline exceeded'',
        Print (Error_clearing ''deadline exceeded''), Print Failed_to_clear],
        committed = []\<rparr>)"
  by (simp add: main_def clear_firestore_def initialize_def clear_all_def fallible_def
      process_collection_def flaky_env_def demo_env_def start_def commit_remaining_def
      commit_def batch_size_def print_def emit_def Let_def)

subsection \<open>Batch sizes\<close>

lemma main_trace:
  "main env = (code, w) \<Longrightarrow> clear_firestore env banner = (ok, w4) \<Longrightarrow>
     committed w = committed w4 \<and> commit_calls (trace w) = commit_calls (trace w4) \<and>
     delete_calls (trace w) = delete_calls (trace w4) \<and> raised (trace w) = raised (trace w4) \<and>
     collection_reports (printed (trace w)) = collection_reports (printed (trace w4)) \<and>
     total_reports (printed (trace w)) = total_reports (printed (trace w4)) \<and>
     trace w = trace w4 @ [Print (if ok then Database_cleared else Failed_to_clear)] \<and>
     code = (if ok then 0 else 1)"
  by (cases rule: main_cases [of env]) auto

lemma failed_commits_sized:
  assumes "failed_commits env e w w'"
    and "list_all sized (commit_calls (trace w))" and "list_all sized (committed w)"
  shows "list_all sized (commit_calls (trace w')) \<and> list_all sized (committed w')"
  using assms unfolding failed_commits_def by auto

lemma chunks_all_sized: "list_all sized (concat (map (\<lambda>c. chunks batch_size (refs c)) cols))"
  using chunks_sized by (fastforce simp: list_all_iff sized_def)

lemma run_sized:
  "list_all sized (commit_calls (trace (snd (main env)))) \<and>
   list_all sized (committed (snd (main env)))"
proof (cases "main env")
  case (Pair code w)
  obtain ok w4 where c: "clear_firestore env banner = (ok, w4)"
    by (cases "clear_firestore env banner") blast
  note m = main_trace [OF Pair c]
  show ?thesis
  proof (cases ok)
    case True
    with c run_success(1,2) [of env banner w4] chunks_all_sized [of "yielded (collections env)"]
    show ?thesis
      by (simp add: Pair m)
  next
    case False
    with c have "clear_firestore env banner = (False, w4)"
      by simp
    from run_failure [OF this] obtain e where "failed_commits env e banner w4"
      by blast
    from failed_commits_sized [OF this] show ?thesis
      by (simp add: Pair m)
  qed
qed

text \<open>
  Claim C2. Every batch the script submits, and hence every batch the store applies, holds
  between 1 and 100 deletes; with nothing pending after the loop, no final batch is
  submitted.
\<close>

theorem committed_batch_sizes:
  "(\<forall>b \<in> set (commit_calls (trace (snd (main env)))). 1 \<le> length b \<and> length b \<le> 100) \<and>
   (\<forall>b \<in> set (committed (snd (main env))). 1 \<le> length b \<and> length b \<le> 100) \<and>
   (count_in_batch s = 0 \<longrightarrow> commit_remaining env s w = (Inr (), w))"
  using run_sized [of env]
  by (simp add: list_all_iff sized_def batch_size_def commit_remaining_def)

text \<open>The run over three documents submits one batch, of size three.\<close>

theorem committed_batch_sizes_witness:
  "[''a'', ''b'', ''c''] \<in> set (commit_calls (trace (snd (main demo_env)))) \<and>
   1 \<le> length [''a'', ''b'', ''c''] \<and> length [''a'', ''b'', ''c''] \<le> 100 \<and>
   [''a'', ''b'', ''c''] \<in> set (committed (snd (main demo_env))) \<and>
   count_in_batch \<lparr>batch = [], count_in_batch = 0, collection_count = 0\<rparr> = 0 \<and>
   commit_remaining demo_env \<lparr>batch = [], count_in_batch = 0, collection_count = 0\<rparr> start =
     (Inr (), start)"
  using committed_batch_sizes [of demo_env
      "\<lparr>batch = [], count_in_batch = 0, collection_count = 0\<rparr>" start]
  by (simp add: main_demo)

subsection \<open>Accounting and completeness\<close>

lemma sum_length_all_chunks:
  "sum_list (map length (concat (map (\<lambda>c. chunks batch_size (refs c)) cols))) =
     sum_list (map (\<lambda>c. length (yielded (stream c))) cols)"
  by (induction cols) (simp_all add: sum_length_chunks batch_size_def refs_def)

lemma main_succeeds:
  assumes "fst (main env) = 0"
  obtains w4 where "clear_firestore env banner = (True, w4)"
    and "main env = (0, print Database_cleared w4)"
  using assms by (cases rule: main_cases [of env]) simp_all

lemma main_fails:
  assumes "fst (main env) \<noteq> 0"
  obtains w4 where "clear_firestore env banner = (False, w4)"
    and "main env = (1, print Failed_to_clear w4)"
  using assms by (cases rule: main_cases [of env]) simp_all

text \<open>
  Claim C3. In a run that ends in success, one grand total is printed; it is the sum of the
  counts printed per collection, which is the sum of the sizes of the batches the store
  applied.
\<close>

theorem total_accounting:
  assumes "fst (main env) = 0"
  shows "total_reports (printed (trace (snd (main env)))) =
           [sum_list (map snd (collection_reports (printed (trace (snd (main env))))))] \<and>
         sum_list (map snd (collection_reports (printed (trace (snd (main env)))))) =
           sum_list (map length (committed (snd (main env))))"
proof -
  from assms obtain w4 where
    c: "clear_firestore env banner = (True, w4)" and
    m: "main env = (0, print Database_cleared w4)"
    by (rule main_succeeds)
  note r = run_success [OF c]
  have "map snd (collection_reports (printed (trace w4))) =
          map (\<lambda>c. length (yielded (stream c))) (yielded (collections env))"
    by (simp add: r(4) comp_def)
  then show ?thesis
    by (simp add: m r(2,5) sum_length_all_chunks)
qed

text \<open>The run over three documents: total 3, one collection count 3, one batch of 3.\<close>

theorem total_accounting_witness:
  "fst (main demo_env) = 0 \<and>
   total_reports (printed (trace (snd (main demo_env)))) = [3] \<and>
   collection_reports (printed (trace (snd (main demo_env)))) = [(''notes'', 3)] \<and>
   committed (snd (main demo_env)) = [[''a'', ''b'', ''c'']]"
proof -
  have h: "fst (main demo_env) = 0"
    by (simp add: main_demo)
  from total_accounting [OF h] show ?thesis
    by (simp add: main_demo)
qed

text \<open>
  Claim C9. The grand total is printed exactly when the run succeeds. A failed run prints
  none, and the store keeps every batch it applied before the error: the applied batches
  are the submitted ones, but for the batch whose submission raised.
\<close>

theorem total_only_on_success:
  "(total_reports (printed (trace (snd (main env)))) \<noteq> []) = (fst (main env) = 0) \<and>
   (fst (main env) = 0 \<or> fst (main env) = 1) \<and>
   (commit_calls (trace (snd (main env))) = committed (snd (main env)) \<or>
    (\<exists>b e. fst (main env) = 1 \<and> raised (trace (snd (main env))) = [e] \<and>
       commit_raises env (committed (snd (main env))) b = Some e \<and>
       commit_calls (trace (snd (main env))) = committed (snd (main env)) @ [b]))"
proof (cases "fst (main env) = 0")
  case True
  then obtain w4 where
    c: "clear_firestore env banner = (True, w4)" and
    m: "main env = (0, print Database_cleared w4)"
    by (rule main_succeeds)
  note r = run_success [OF c]
  show ?thesis
    by (simp add: m r(1,2,5))
next
  case False
  then obtain w4 where
    c: "clear_firestore env banner = (False, w4)" and
    m: "main env = (1, print Failed_to_clear w4)"
    by (rule main_fails)
  from run_failure [OF c] obtain e where
    f: "failed_commits env e banner w4" and
    r: "raised (trace w4) = [e]" "total_reports (printed (trace w4)) = []"
    by auto
  from f have "commit_calls (trace w4) = committed w4 \<or>
    (\<exists>b. commit_calls (trace w4) = committed w4 @ [b] \<and>
         commit_raises env (committed w4) b = Some e)"
    unfolding failed_commits_def by auto
  then show ?thesis
    by (auto simp: m r)
qed



subsection \<open>Failures\<close>

lemma calls_append [simp]: "calls (s @ t) = calls s @ calls t"
  by (induction s rule: calls.induct) simp_all

lemma main_broken:
  "main broken_env =
     (1, \<lparr>trace = [Print Clearing_banner, Print Warning_banner, Print Auto_proceeding,
        Call ApplicationDefault, Raised ''no credentials'',
        Print (Failed_to_initialize ''no credentials''), Print Please_authenticate,
        Print Failed_to_clear],
        committed = []\<rparr>)"
  by (simp add: main_def clear_firestore_def initialize_def fallible_def
      broken_env_def demo_env_def start_def print_def emit_def Let_def)

lemma main_empty:
  "main empty_env =
     (0, \<lparr>trace = [Print Clearing_banner, Print Warning_banner, Print Auto_proceeding,
        Call ApplicationDefault, Call Initialize_app, Print Initialized,
        Call Client, Print Connected, Call Collections,
        Print (Processing_collection ''logs''), Call (Stream ''logs''),
        Print (Deleted_from 0 ''logs''),
        Print Successfully_cleared, Print (Total_deleted 0), Print Database_cleared],
        committed = []\<rparr>)"
  by (simp add: main_def clear_firestore_def initialize_def clear_all_def fallible_def
      process_collection_def empty_env_def demo_env_def start_def commit_remaining_def
      print_def emit_def Let_def)

lemma banner_trace [simp]:
  "trace banner = [Print Clearing_banner, Print Warning_banner, Print Auto_proceeding]"
  by (simp add: banner_def start_def)

text \<open>
  Claim C4. When acquiring the credentials, initialising the app or creating the client
  raises, the script has called nothing but these (no enumeration, no streaming, no delete,
  no commit), the store has applied nothing, \<open>clear_firestore\<close> returns \<open>False\<close> and the
  process exits with status 1.
\<close>

theorem auth_failure_aborts:
  assumes "ApplicationDefault_raises env \<noteq> None \<or> initialize_app_raises env \<noteq> None \<or>
           client_raises env \<noteq> None"
  shows "fst (main env) = 1 \<and> \<not> fst (clear_firestore env banner) \<and>
         calls (trace (snd (main env))) \<in>
           {[ApplicationDefault], [ApplicationDefault, Initialize_app],
            [ApplicationDefault, Initialize_app, Client]} \<and>
         committed (snd (main env)) = []"
proof (cases "main env")
  case (Pair code w)
  obtain ok w4 where c: "clear_firestore env banner = (ok, w4)"
    by (cases "clear_firestore env banner") blast
  note m = main_trace [OF Pair c]
  from c have "\<not> ok \<and> committed w4 = [] \<and>
      calls (trace w4) \<in> {[ApplicationDefault], [ApplicationDefault, Initialize_app],
            [ApplicationDefault, Initialize_app, Client]}"
  proof (cases rule: clear_firestore_cases)
    case (credentials e)
    then show ?thesis by simp
  next
    case (app e)
    then show ?thesis by simp
  next
    case (client e)
    then show ?thesis by simp
  next
    case (data e w3 w4)
    with assms show ?thesis by simp
  next
    case (success T w3 w4)
    with assms show ?thesis by simp
  qed
  then show ?thesis
    by (simp add: Pair c m)
qed

text \<open>Without credentials the script makes one call and exits with status 1.\<close>

theorem auth_failure_aborts_witness:
  "ApplicationDefault_raises broken_env = Some ''no credentials'' \<and>
   fst (main broken_env) = 1 \<and>
   calls (trace (snd (main broken_env))) = [ApplicationDefault] \<and>
   committed (snd (main broken_env)) = []"
proof -
  have h: "ApplicationDefault_raises broken_env \<noteq> None \<or>
      initialize_app_raises broken_env \<noteq> None \<or> client_raises broken_env \<noteq> None"
    by (simp add: broken_env_def)
  from auth_failure_aborts [OF h] show ?thesis
    by (simp add: main_broken) (simp add: broken_env_def)
qed

lemma main_code: "fst (clear_firestore env banner) = (fst (main env) = 0)"
  by (cases rule: main_cases [of env]) simp_all

text \<open>
  Claim C5, as stated: every error is caught at the outermost scope. An error of
  \<open>credentials.ApplicationDefault()\<close> is not: the inner handler (lines 22 to 25) catches it
  and prints its own two lines, and the line of the outer handler (line 74) is not printed.
\<close>

theorem outermost_handler_counterexample:
  "raised (trace (snd (main broken_env))) = [''no credentials''] \<and>
   Print (Failed_to_initialize ''no credentials'') \<in> set (trace (snd (main broken_env))) \<and>
   Print (Error_clearing ''no credentials'') \<notin> set (trace (snd (main broken_env)))"
  by (simp add: main_broken)

text \<open>
  Claim C5, amended. A run raises at most one exception. If none is raised,
  \<open>clear_firestore\<close> returns \<open>True\<close> and the exit status is 0. If \<open>e\<close> is raised, nothing
  is called after it (no retry, no recovery): the handler prints \<open>e\<close>, \<open>clear_firestore\<close>
  returns \<open>False\<close>, the script prints its failure line and exits with status 1. The
  handler is the inner one when the credentials or the app initialisation raised, and else
  the outermost one.
\<close>

theorem errors_become_failure:
  "(raised (trace (snd (main env))) = [] \<and> fst (clear_firestore env banner) \<and>
      fst (main env) = 0) \<or>
   (\<exists>e t. raised (trace (snd (main env))) = [e] \<and> \<not> fst (clear_firestore env banner) \<and>
      fst (main env) = 1 \<and>
      trace (snd (main env)) = t @
        (if ApplicationDefault_raises env = None \<and> initialize_app_raises env = None
         then [Raised e, Print (Error_clearing e), Print Failed_to_clear]
         else [Raised e, Print (Failed_to_initialize e), Print Please_authenticate,
               Print Failed_to_clear]))"
proof (cases "fst (main env) = 0")
  case True
  then obtain w4 where
    c: "clear_firestore env banner = (True, w4)" and
    m: "main env = (0, print Database_cleared w4)"
    by (rule main_succeeds)
  note r = run_success [OF c]
  show ?thesis
    by (simp add: m c r(6))
next
  case False
  then obtain w4 where
    c: "clear_firestore env banner = (False, w4)" and
    m: "main env = (1, print Failed_to_clear w4)"
    by (rule main_fails)
  from run_failure [OF c] obtain e t where
    r: "raised (trace w4) = [e]" and
    t: "trace w4 = t @
        (if ApplicationDefault_raises env = None \<and> initialize_app_raises env = None
         then [Raised e, Print (Error_clearing e)]
         else [Raised e, Print (Failed_to_initialize e), Print Please_authenticate])"
    by auto
  have "raised (trace (snd (main env))) = [e]"
    by (simp add: m r)
  moreover have "\<not> fst (clear_firestore env banner)" and "fst (main env) = 1"
    by (simp_all add: m c)
  moreover have "trace (snd (main env)) = t @
        (if ApplicationDefault_raises env = None \<and> initialize_app_raises env = None
         then [Raised e, Print (Error_clearing e), Print Failed_to_clear]
         else [Raised e, Print (Failed_to_initialize e), Print Please_authenticate,
               Print Failed_to_clear])"
    by (simp add: m t)
  ultimately show ?thesis
    by blast
qed

text \<open>A rejected batch: its error is printed by the outermost handler, exit status 1.\<close>

theorem errors_become_failure_witness:
  "raised (trace (snd (main flaky_env))) = [''deadline exceeded''] \<and>
   fst (main flaky_env) = 1 \<and>
   (\<exists>t. trace (snd (main flaky_env)) = t @ [Raised ''deadline exceeded'',
      Print (Error_clearing ''deadline exceeded''), Print Failed_to_clear])"
  using errors_become_failure [of flaky_env]
  by (simp add: main_flaky)

text \<open>
  Claim C6, as stated: the runner returns the number of deleted documents, or an error
  value. It returns a boolean: two runs that delete 3 and 0 documents return the same
  value, and so do two runs that fail with different errors.
\<close>

theorem result_counterexample:
  "fst (clear_firestore demo_env banner) = fst (clear_firestore empty_env banner) \<and>
   total_reports (printed (trace (snd (main demo_env)))) = [3] \<and>
   total_reports (printed (trace (snd (main empty_env)))) = [0] \<and>
   fst (clear_firestore broken_env banner) = fst (clear_firestore flaky_env banner) \<and>
   raised (trace (snd (main broken_env))) = [''no credentials''] \<and>
   raised (trace (snd (main flaky_env))) = [''deadline exceeded'']"
  by (simp add: main_code main_demo main_empty main_broken main_flaky)

text \<open>
  Claim C6, amended. \<open>clear_firestore\<close> returns \<open>True\<close> or \<open>False\<close>. When it returns
  \<open>True\<close>, the last line it printed is the total, which is the number of deletes in the
  batches that the store applied during the call. When it returns \<open>False\<close>, an exception
  was raised during the call, and the last thing it did was to print the message of that
  exception.
\<close>

theorem returns_boolean:
  assumes "clear_firestore env w = (ok, w')"
  shows "(ok \<longrightarrow>
           (\<exists>t cs. committed w' = committed w @ cs \<and>
              trace w' = t @ [Print Successfully_cleared,
                Print (Total_deleted (sum_list (map length cs)))])) \<and>
         (\<not> ok \<longrightarrow>
           (\<exists>e t. raised (trace w') = raised (trace w) @ [e] \<and>
              (trace w' = t @ [Raised e, Print (Error_clearing e)] \<or>
               trace w' = t @ [Raised e, Print (Failed_to_initialize e),
                 Print Please_authenticate])))"
proof (cases ok)
  case True
  with assms have c: "clear_firestore env w = (True, w')"
    by simp
  note r = run_success [OF c]
  let ?cs = "concat (map (\<lambda>c. chunks batch_size (refs c)) (yielded (collections env)))"
  from r(7) obtain t where "trace w' = t @ [Print Successfully_cleared,
      Print (Total_deleted (sum_list (map length ?cs)))]"
    by (auto simp: sum_length_all_chunks)
  with r(2) True show ?thesis
    by blast
next
  case False
  with assms have c: "clear_firestore env w = (False, w')"
    by simp
  from run_failure [OF c] obtain e t where
    "raised (trace w') = raised (trace w) @ [e]"
    "trace w' = t @
        (if ApplicationDefault_raises env = None \<and> initialize_app_raises env = None
         then [Raised e, Print (Error_clearing e)]
         else [Raised e, Print (Failed_to_initialize e), Print Please_authenticate])"
    by blast
  then have "raised (trace w') = raised (trace w) @ [e] \<and>
      (trace w' = t @ [Raised e, Print (Error_clearing e)] \<or>
       trace w' = t @ [Raised e, Print (Failed_to_initialize e), Print Please_authenticate])"
    by (simp split: if_splits)
  with False show ?thesis
    by blast
qed

text \<open>The run over three documents returns \<open>True\<close>; its last line is the total 3.\<close>

theorem returns_boolean_witness:
  "fst (clear_firestore demo_env banner) \<and>
   (\<exists>t cs. committed (snd (clear_firestore demo_env banner)) = committed banner @ cs \<and>
      trace (snd (clear_firestore demo_env banner)) =
        t @ [Print Successfully_cleared, Print (Total_deleted (sum_list (map length cs)))])"
proof -
  have h: "clear_firestore demo_env banner =
      (fst (clear_firestore demo_env banner), snd (clear_firestore demo_env banner))"
    by simp
  have "fst (clear_firestore demo_env banner)"
    by (simp add: main_code main_demo)
  with returns_boolean [OF h] show ?thesis
    by simp
qed

text \<open>
  Claim C8. Against a store whose collections hold no documents the script calls neither
  \<open>batch.delete\<close> nor \<open>batch.commit\<close>, the store applies nothing, and a run that ends in
  success prints the total 0.
\<close>

theorem empty_store_no_deletes:
  assumes "store_empty env"
  shows "delete_calls (trace (snd (main env))) = [] \<and>
         commit_calls (trace (snd (main env))) = [] \<and>
         committed (snd (main env)) = [] \<and>
         (fst (main env) = 0 \<longrightarrow> total_reports (printed (trace (snd (main env)))) = [0])"
proof (cases "main env")
  case (Pair code w)
  obtain ok w4 where c: "clear_firestore env banner = (ok, w4)"
    by (cases "clear_firestore env banner") blast
  note m = main_trace [OF Pair c]
  note e = assms [unfolded store_empty_def]
  from c have quiet: "delete_calls (trace w4) = [] \<and> commit_calls (trace w4) = [] \<and>
      committed w4 = []"
  proof (cases rule: clear_firestore_cases)
    case (credentials e)
    then show ?thesis by simp
  next
    case (app e)
    then show ?thesis by simp
  next
    case (client e)
    then show ?thesis by simp
  next
    case (data e' w3 w5)
    from delete_collections_empty [OF e data(7)] show ?thesis
      by (simp add: data(5,6,8))
  next
    case (success T w3 w5)
    from delete_collections_empty [OF e success(7)] show ?thesis
      by (simp add: success(5,6,8))
  qed
  have "sum_list (map (\<lambda>c. length (yielded (stream c))) (yielded (collections env))) = 0"
    using e by (simp add: list_all_iff)
  then have "total_reports (printed (trace w4)) = [0]" if "ok"
    using run_success(5) [of env banner w4] c that by simp
  with quiet show ?thesis
    by (simp add: Pair m)
qed

text \<open>A store with one collection without documents: no deletes, total 0, status 0.\<close>

theorem empty_store_no_deletes_witness:
  "store_empty empty_env \<and> fst (main empty_env) = 0 \<and>
   delete_calls (trace (snd (main empty_env))) = [] \<and>
   commit_calls (trace (snd (main empty_env))) = [] \<and>
   total_reports (printed (trace (snd (main empty_env)))) = [0]"
proof -
  have h: "store_empty empty_env"
    by (simp add: store_empty_def empty_env_def)
  from empty_store_no_deletes [OF h] h show ?thesis
    by (simp add: main_empty)
qed

subsection \<open>Runs without errors, and the scenario of the specification\<close>

lemma yielded_of_list [simp]: "yielded (of_list xs) = xs"
  by (induction xs) simp_all

lemma ends_of_list [simp]: "ends (of_list xs) = None"
  by (induction xs) simp_all

lemma delete_docs_returns:
  assumes "\<forall>applied b. commit_raises env applied b = None"
  shows "ends ds = None \<Longrightarrow> \<exists>s' w'. delete_docs env ds s w = (Inr s', w')"
proof (induction ds arbitrary: s w)
  case (Yield doc rest)
  then show ?case
    using assms by (simp add: Let_def commit_def)
qed simp_all

lemma process_collection_returns:
  assumes "\<forall>applied b. commit_raises env applied b = None" and "ends (stream c) = None"
  shows "\<exists>T' w'. process_collection env c T w = (Inr T', w')"
proof -
  let ?w2 = "emit (Call (Stream (collection_id c))) (print (Processing_collection (collection_id c)) w)"
  obtain s w3 where "delete_docs env (stream c)
      \<lparr>batch = [], count_in_batch = 0, collection_count = 0\<rparr> ?w2 = (Inr s, w3)"
    using delete_docs_returns [OF assms] by blast
  then show ?thesis
    using assms(1) by (simp add: process_collection_def commit_remaining_def commit_def Let_def)
qed

lemma delete_collections_returns:
  assumes "\<forall>applied b. commit_raises env applied b = None"
  shows "ends cols = None \<Longrightarrow> list_all (\<lambda>c. ends (stream c) = None) (yielded cols) \<Longrightarrow>
     \<exists>T' w'. delete_collections env cols T w = (Inr T', w')"
proof (induction cols arbitrary: T w)
  case (Yield c rest)
  from Yield.prems obtain T1 w1 where "process_collection env c T w = (Inr T1, w1)"
    using process_collection_returns [OF assms, of c T w] by auto
  with Yield show ?case
    by simp
qed simp_all

lemma healthy_succeeds:
  assumes "healthy env"
  shows "fst (main env) = 0"
proof -
  let ?w3 = "emit (Call Collections) (print Connected (emit (Call Client)
        (print Initialized (emit (Call Initialize_app) (emit (Call ApplicationDefault) banner)))))"
  from assms obtain T w4 where
    "delete_collections env (collections env) 0 ?w3 = (Inr T, w4)"
    unfolding healthy_def using delete_collections_returns [of env "collections env" 0 ?w3]
    by blast
  with assms have "fst (clear_firestore env banner)"
    by (simp add: healthy_def clear_firestore_def initialize_def clear_all_def fallible_def Let_def)
  then show ?thesis
    by (simp add: main_code)
qed

lemma healthy_scenario: "healthy scenario"
  by (simp add: healthy_def scenario_def users_def logs_def)

lemma chunks_users:
  "chunks batch_size (map f [0..<150]) = [map f [0..<100], map f [100..<150]]"
proof -
  have "[0..<150] = [0..<100] @ [100..<150]"
    using upt_add_eq_append [of 0 100 50] by simp
  then have "map f [0..<150] = map f [0..<100] @ map f [100..<150]"
    by simp
  then show ?thesis
    by (simp add: chunks_step chunks_short batch_size_def)
qed

text \<open>
  Claim C7. In the scenario the script submits two batches, of the first 100 and the last
  50 references of "users", and none for "logs"; the store applies both; the counts printed
  are 150 for "users" and 0 for "logs", the total printed is 150, and the exit status is 0.
\<close>

theorem scenario_users_logs:
  "fst (main scenario) = 0 \<and>
   commit_calls (trace (snd (main scenario))) =
     [map (Pair ''users'') [0..<100], map (Pair ''users'') [100..<150]] \<and>
   map length (commit_calls (trace (snd (main scenario)))) = [100, 50] \<and>
   committed (snd (main scenario)) = commit_calls (trace (snd (main scenario))) \<and>
   collection_reports (printed (trace (snd (main scenario)))) = [(''users'', 150), (''logs'', 0)] \<and>
   total_reports (printed (trace (snd (main scenario)))) = [150]"
proof -
  have ok: "fst (main scenario) = 0"
    using healthy_scenario by (rule healthy_succeeds)
  then obtain w4 where
    c: "clear_firestore scenario banner = (True, w4)" and
    m: "main scenario = (0, print Database_cleared w4)"
    by (rule main_succeeds)
  note r = run_success [OF c]
  have cols: "yielded (collections scenario) = [users, logs]"
    by (simp add: scenario_def)
  have refs: "refs users = map (Pair ''users'') [0..<150]" "refs logs = []"
    by (simp_all add: refs_def users_def logs_def comp_def)
  have n: "length (yielded (stream users)) = 150" "length (yielded (stream logs)) = 0"
    by (simp_all add: users_def logs_def)
  have ids: "collection_id users = ''users''" "collection_id logs = ''logs''"
    by (simp_all add: users_def logs_def)
  have cc: "commit_calls (trace w4) =
      [map (Pair ''users'') [0..<100], map (Pair ''users'') [100..<150]]"
    by (simp add: r(1) cols refs chunks_users)
  have cm: "committed w4 = [map (Pair ''users'') [0..<100], map (Pair ''users'') [100..<150]]"
    by (simp add: r(2) cols refs chunks_users)
  have cr: "collection_reports (printed (trace w4)) = [(''users'', 150), (''logs'', 0)]"
    by (simp add: r(4) cols n ids)
  have tr: "total_reports (printed (trace w4)) = [150]"
    by (simp add: r(5) cols n)
  show ?thesis
    by (simp add: m cc cm cr tr)
qed

text \<open>A rejected batch: no total is printed, and the batch is submitted but not applied.\<close>

theorem total_only_on_success_witness:
  "total_reports (printed (trace (snd (main flaky_env)))) = [] \<and> fst (main flaky_env) = 1 \<and>
   raised (trace (snd (main flaky_env))) = [''deadline exceeded''] \<and>
   commit_calls (trace (snd (main flaky_env))) = committed (snd (main flaky_env)) @ [[''a'', ''b'', ''c'']]"
  using total_only_on_success [of flaky_env]
  by (simp add: main_flaky)

end
